theory Spec2Isabelle
  imports Main "HOL-Library.Word" "HOL-Library.Sublist"
begin

section \<open>The microservice (service/main.go)\<close>

subsection \<open>Data\<close>

text \<open>
  A Go \<open>error\<close> is represented by its message. \<open>Record\<close> is the struct of the
  service; \<open>CorrelationID\<close> is a Go \<open>int\<close> on which no arithmetic is done.
\<close>

type_synonym error = string

record Record =
  ID :: string
  AssetName :: string
  IP :: string
  CreatedUTC :: string
  Source :: string
  Category :: string
  ASN :: string
  CorrelationID :: int

text \<open>The anonymous struct \<open>enrichedData\<close> that the enrichment response is decoded into.\<close>

datatype enrichedData =
  EnrichedData (eASN: string) (eCategory: string) (eCorrelationID: int)

subsection \<open>Formatting\<close>

text \<open>\<open>%d\<close> of \<open>fmt\<close>: the decimal digits of an integer, with a sign when negative.\<close>

definition digit :: "nat \<Rightarrow> char" where
  "digit n = ''0123456789'' ! n"

function fmt_nat :: "nat \<Rightarrow> string" where
  "fmt_nat n = (if n < 10 then [digit n] else fmt_nat (n div 10) @ [digit (n mod 10)])"
  by pat_completeness auto
termination
  by (relation "measure (\<lambda>n. n)") auto

declare fmt_nat.simps [simp del]

definition fmt_d :: "int \<Rightarrow> string" where
  "fmt_d i = (if i < 0 then CHR ''-'' # fmt_nat (nat (- i)) else fmt_nat (nat i))"

subsection \<open>The enrichment client\<close>

text \<open>
  What the outside world does at one iteration of the retry loop of \<open>enrichRecord\<close>:
  \<open>http.NewRequest\<close> fails, or \<open>client.Do\<close> fails, or \<open>io.ReadAll\<close> of the response
  body fails, or a response with a status code arrives. The body of a response is
  represented by what \<open>json.Unmarshal(responseBody, &enrichedData)\<close> gives on it.
\<close>

datatype attempt_result =
    NewRequestErr error
  | DoErr error
  | ReadAllErr error
  | Response int "error + enrichedData"

text \<open>
  The environment of one call of \<open>enrichRecord\<close>: the result of the initial
  \<open>json.Marshal\<close> and, for each attempt number, what that attempt meets.
\<close>

record enrich_env =
  marshal_err :: "error option"
  reply :: "nat \<Rightarrow> attempt_result"

text \<open>
  The effects of a call that the properties speak about: the request of attempt \<open>n\<close>
  being sent (lines 88 to 91), and \<open>time.Sleep d\<close> with \<open>d\<close> in nanoseconds.
\<close>

datatype effect = Attempt nat | Sleep int

definition maxRetries :: nat where
  "maxRetries = 3"

text \<open>\<open>time.Second\<close>, a \<open>time.Duration\<close>: a signed 64-bit count of nanoseconds.\<close>

definition Second :: "64 word" where
  "Second = 1000000000"

definition StatusOK :: int where
  "StatusOK = 200"

definition StatusBadRequest :: int where
  "StatusBadRequest = 400"

definition StatusInternalServerError :: int where
  "StatusInternalServerError = 500"

text \<open>
  The body of the loop after the request was built: \<open>Some d\<close> is the success branch
  (lines 107 to 112), \<open>None\<close> every branch that only logs and falls through to line 119.
\<close>

fun decoded :: "attempt_result \<Rightarrow> enrichedData option" where
  "decoded (Response code body) =
     (if code = StatusOK then (case body of Inl e \<Rightarrow> None | Inr d \<Rightarrow> Some d) else None)"
| "decoded _ = None"

text \<open>
  The loop \<open>for attempt := 1; attempt <= maxRetries; attempt++\<close>, with the local
  \<open>retryDelay\<close> and the effects so far. The result is the pair that the Go function
  returns, and the effects.
\<close>

function enrichRecord_loop ::
  "enrich_env \<Rightarrow> Record \<Rightarrow> nat \<Rightarrow> 64 word \<Rightarrow> effect list
     \<Rightarrow> (Record \<times> error option) \<times> effect list" where
  "enrichRecord_loop env record attempt retryDelay tr =
     (if attempt \<le> maxRetries then
        (case reply env attempt of
           NewRequestErr e \<Rightarrow> ((record, Some e), tr)
         | r \<Rightarrow>
            (case decoded r of
               Some d \<Rightarrow>
                 ((record\<lparr>ASN := eASN d, Category := eCategory d,
                           CorrelationID := eCorrelationID d\<rparr>, None),
                  tr @ [Attempt attempt])
             | None \<Rightarrow>
                 if attempt < maxRetries then
                   enrichRecord_loop env record (attempt + 1) (retryDelay * 2)
                     (tr @ [Attempt attempt, Sleep (sint retryDelay)])
                 else
                   ((record,
                     Some (''failed to enrich record after '' @ fmt_d (int maxRetries)
                             @ '' attempts'')),
                    tr @ [Attempt attempt])))
      else ((record, Some ''unexpected error during enrichment''), tr))"
  by pat_completeness auto
termination
  by (relation "measure (\<lambda>(env, record, attempt, retryDelay, tr). maxRetries + 1 - attempt)")
     auto

declare enrichRecord_loop.simps [simp del]

definition enrichRecord_run :: "enrich_env \<Rightarrow> Record \<Rightarrow> (Record \<times> error option) \<times> effect list" where
  "enrichRecord_run env record =
     (case marshal_err env of
        Some e \<Rightarrow> ((record, Some e), [])
      | None \<Rightarrow> enrichRecord_loop env record 1 Second [])"

definition enrichRecord :: "enrich_env \<Rightarrow> Record \<Rightarrow> Record \<times> error option" where
  "enrichRecord env record = fst (enrichRecord_run env record)"

definition enrichRecord_effects :: "enrich_env \<Rightarrow> Record \<Rightarrow> effect list" where
  "enrichRecord_effects env record = snd (enrichRecord_run env record)"

subsection \<open>The intake handler\<close>

text \<open>
  An inbound request, as \<open>processHandler\<close> sees it: \<open>io.ReadAll(r.Body)\<close> fails, or
  the body is read and \<open>json.Unmarshal(body, &record)\<close> gives an error or a record.
\<close>

datatype request = BodyReadErr error | Body "error + Record"

record response =
  resp_status :: int
  resp_body :: string

text \<open>\<open>http.Error\<close> answers with the code and the message followed by a newline.\<close>

definition http_Error :: "string \<Rightarrow> int \<Rightarrow> response" where
  "http_Error msg code = \<lparr>resp_status = code, resp_body = msg @ [CHR 0x0A]\<rparr>"

text \<open>The JSON encoding of \<open>map[string]string{"status": "record processed"}\<close>.\<close>

definition processed_body :: string where
  "processed_body =
     ''{'' @ [CHR 0x22] @ ''status'' @ [CHR 0x22] @ '':'' @ [CHR 0x22] @ ''record processed''
       @ [CHR 0x22] @ ''}'' @ [CHR 0x0A]"

text \<open>
  The handler either answers at once (\<open>Reject\<close>), or sends the enriched record on
  \<open>recordChannel\<close> and answers once the send has completed (\<open>HandOff\<close>).
\<close>

datatype handler_outcome = Reject response | HandOff Record response

definition processHandler :: "enrich_env \<Rightarrow> request \<Rightarrow> handler_outcome" where
  "processHandler env r =
     (case r of
        BodyReadErr e \<Rightarrow> Reject (http_Error ''Failed to read request body'' StatusBadRequest)
      | Body (Inl e) \<Rightarrow> Reject (http_Error ''Invalid JSON format'' StatusBadRequest)
      | Body (Inr record) \<Rightarrow>
          (case enrichRecord env record of
             (enrichedRecord, Some e) \<Rightarrow>
               Reject (http_Error ''Failed to enrich record'' StatusInternalServerError)
           | (enrichedRecord, None) \<Rightarrow>
               HandOff enrichedRecord \<lparr>resp_status = StatusOK, resp_body = processed_body\<rparr>))"

subsection \<open>The analytics sender\<close>

text \<open>
  What one call of \<open>sendToAnalytics\<close> meets: each of the four calls that can return an
  error, or a response with its status code, its body and the result of
  \<open>json.Unmarshal(responseBody, &response)\<close> (\<open>None\<close> when it decodes).
\<close>

datatype sink_result =
    SinkMarshalErr error
  | SinkNewRequestErr error
  | SinkDoErr error
  | SinkReadAllErr error
  | SinkResponse int string "error option"

fun sendToAnalytics :: "Record list \<Rightarrow> sink_result \<Rightarrow> error option" where
  "sendToAnalytics records (SinkMarshalErr e) = Some e"
| "sendToAnalytics records (SinkNewRequestErr e) = Some e"
| "sendToAnalytics records (SinkDoErr e) = Some e"
| "sendToAnalytics records (SinkReadAllErr e) = Some e"
| "sendToAnalytics records (SinkResponse code responseBody um) =
     (if code \<noteq> StatusOK then
        Some (''analytics service returned status '' @ fmt_d code @ '', response: ''
                @ responseBody)
      else um)"

subsection \<open>The channel and the dispatcher loop\<close>

text \<open>
  The shared state is the buffered channel \<open>recordChannel\<close> (its queued records, oldest
  first). \<open>batch\<close> is the local slice of \<open>startSendingToAnalytics\<close>. \<open>sent\<close> lists
  the arguments of the calls of \<open>sendToAnalytics\<close> so far, \<open>logged\<close> the lines the
  dispatcher logged on a failed send, \<open>answered\<close> the responses the handlers gave.
\<close>

record state =
  recordChannel :: "Record list"
  batch :: "Record list"
  sent :: "Record list list"
  logged :: "string list"
  answered :: "response list"

text \<open>\<open>make(chan Record, 20)\<close>\<close>

definition channelCap :: nat where
  "channelCap = 20"

definition init :: state where
  "init = \<lparr>recordChannel = [], batch = [], sent = [], logged = [], answered = []\<rparr>"

text \<open>
  The case \<open><-ticker.C\<close> of the select (lines 140 to 152). The slices
  \<open>batch[:20]\<close>, \<open>batch[20:]\<close> and \<open>batch[:0]\<close> are \<open>take\<close> and \<open>drop\<close>; the send is
  synchronous, so the shared backing array is not written while \<open>recordsToSend\<close> is
  in use.
\<close>

definition on_tick :: "sink_result \<Rightarrow> state \<Rightarrow> state" where
  "on_tick sr s =
     (if length (batch s) > 0 then
        (let (recordsToSend, rest) =
               (if length (batch s) \<ge> 20 then (take 20 (batch s), drop 20 (batch s))
                else (batch s, take 0 (batch s)))
         in (case sendToAnalytics recordsToSend sr of
               Some e \<Rightarrow>
                 s\<lparr>batch := rest, sent := sent s @ [recordsToSend],
                   logged := logged s @ [''Failed to send batch to Analytics Service: '' @ e]\<rparr>
             | None \<Rightarrow> s\<lparr>batch := rest, sent := sent s @ [recordsToSend]\<rparr>))
      else s)"

text \<open>
  The steps of the service. \<open>Handle\<close> is one invocation of \<open>processHandler\<close>, placed
  at the moment it completes: enrichment touches only the invocation's own copy of the
  record, so the invocation meets the shared state at its channel send alone.
  \<open>Receive\<close> is the case \<open>record := <-recordChannel\<close> of the dispatcher's select and
  \<open>Tick\<close> the case \<open><-ticker.C\<close>. A step that cannot be taken in a state gives
  \<open>None\<close>: a send on a full channel blocks, a receive on an empty one is not ready.
\<close>

datatype event = Handle request enrich_env | Receive | Tick sink_result

fun step :: "state \<Rightarrow> event \<Rightarrow> state option" where
  "step s (Handle r env) =
     (case processHandler env r of
        Reject resp \<Rightarrow> Some (s\<lparr>answered := answered s @ [resp]\<rparr>)
      | HandOff enrichedRecord resp \<Rightarrow>
          if length (recordChannel s) < channelCap then
            Some (s\<lparr>recordChannel := recordChannel s @ [enrichedRecord],
                    answered := answered s @ [resp]\<rparr>)
          else None)"
| "step s Receive =
     (case recordChannel s of
        [] \<Rightarrow> None
      | record # rest \<Rightarrow> Some (s\<lparr>recordChannel := rest, batch := batch s @ [record]\<rparr>))"
| "step s (Tick sr) = Some (on_tick sr s)"

fun run :: "state \<Rightarrow> event list \<Rightarrow> state option" where
  "run s [] = Some s"
| "run s (e # es) = (case step s e of None \<Rightarrow> None | Some s' \<Rightarrow> run s' es)"

text \<open>The records that the handlers of a schedule send on the channel, in order.\<close>

fun handed_off :: "event list \<Rightarrow> Record list" where
  "handed_off [] = []"
| "handed_off (Handle r env # es) =
     (case processHandler env r of
        Reject resp \<Rightarrow> handed_off es
      | HandOff enrichedRecord resp \<Rightarrow> enrichedRecord # handed_off es)"
| "handed_off (e # es) = handed_off es"

section \<open>The producer client: category normalisation\<close>

text \<open>
  A Go string is taken as the sequence of its code points, the way \<open>strings.ToLower\<close>
  and \<open>strings.TrimSpace\<close> read it. \<open>runes\<close> gives the code points of an ASCII
  literal of the source.
\<close>

type_synonym rune = nat

definition runes :: "string \<Rightarrow> rune list" where
  "runes s = map of_char s"

text \<open>
  \<open>unicode.ToLower\<close>: the letters \<open>A\<close> to \<open>Z\<close> move to \<open>a\<close> to \<open>z\<close>, every other
  ASCII code point stays, and a code point above ASCII is looked up in the case tables
  of the Go library, the parameter \<open>tbl\<close> here.
\<close>

definition unicode_ToLower :: "(rune \<Rightarrow> rune) \<Rightarrow> rune \<Rightarrow> rune" where
  "unicode_ToLower tbl r =
     (if r \<le> 127 then (if 65 \<le> r \<and> r \<le> 90 then r + 32 else r) else tbl r)"

definition ToLower :: "(rune \<Rightarrow> rune) \<Rightarrow> rune list \<Rightarrow> rune list" where
  "ToLower tbl s = map (unicode_ToLower tbl) s"

text \<open>
  \<open>unicode.IsSpace\<close>: in Latin-1 the code points tab, newline, vertical tab, form feed,
  carriage return, space, U+0085 and U+00A0; above Latin-1 the White_Space table of
  the Go library, the parameter \<open>ws\<close> here.
\<close>

definition unicode_IsSpace :: "(rune \<Rightarrow> bool) \<Rightarrow> rune \<Rightarrow> bool" where
  "unicode_IsSpace ws r =
     (if r \<le> 255 then r \<in> {9, 10, 11, 12, 13, 32, 133, 160} else ws r)"

definition TrimSpace :: "(rune \<Rightarrow> bool) \<Rightarrow> rune list \<Rightarrow> rune list" where
  "TrimSpace ws s =
     rev (dropWhile (unicode_IsSpace ws) (rev (dropWhile (unicode_IsSpace ws) s)))"

text \<open>The map literal \<open>categoryMap\<close>; its keys are pairwise different.\<close>

definition categoryMap :: "(rune list \<times> rune list) list" where
  "categoryMap = map (\<lambda>(k, v). (runes k, runes v))
     [(''contentinjection'', ''contentinjection''),
      (''content injection'', ''contentinjection''),
      (''content_injection'', ''contentinjection''),
      (''drivebycompromise'', ''drivebycompromise''),
      (''drive by compromise'', ''drivebycompromise''),
      (''drive-by-compromise'', ''drivebycompromise''),
      (''compromise (driveby)'', ''drivebycompromise''),
      (''exploitpublicfacingapplication'', ''exploitpublicfacingapplication''),
      (''exploit public facing'', ''exploitpublicfacingapplication''),
      (''explaoit-public facing'', ''exploitpublicfacingapplication''),
      (''externalremoteservices'', ''externalremoteservices''),
      (''external remote service'', ''externalremoteservices''),
      (''external-remote-service'', ''externalremoteservices''),
      (''phishing'', ''phishing''),
      (''phising'', ''phishing''),
      (''Phising'', ''phishing''),
      (''replicationthroughremovablemedia'', ''replicationthroughremovablemedia''),
      (''replication through removable media'', ''replicationthroughremovablemedia''),
      (''Replication through removable media'', ''replicationthroughremovablemedia''),
      (''replication-through-removable-media'', ''replicationthroughremovablemedia''),
      (''supplychaincompromise'', ''supplychaincompromise''),
      (''supply chain compromise'', ''supplychaincompromise''),
      (''supply_chain_compromise'', ''supplychaincompromise''),
      (''trustedrelationship'', ''trustedrelationship''),
      (''trusted relationship'', ''trustedrelationship''),
      (''trusted-relationship'', ''trustedrelationship''),
      (''validaccounts'', ''validaccounts''),
      (''valid accounts'', ''validaccounts''),
      (''valid-accounts'', ''validaccounts''),
      (''valida_accounts'', ''validaccounts'')]"

definition sanitizeCategory :: "(rune \<Rightarrow> rune) \<Rightarrow> (rune \<Rightarrow> bool) \<Rightarrow> rune list \<Rightarrow> rune list" where
  "sanitizeCategory tbl ws category =
     (let normalizedCategory = TrimSpace ws (ToLower tbl category)
      in (case map_of categoryMap normalizedCategory of
            Some correctCategory \<Rightarrow> correctCategory
          | None \<Rightarrow> normalizedCategory))"

section \<open>Notions used by the properties\<close>

text \<open>
  An attempt fails when it ends in one of the branches that only log: the call or the
  read of the body fails, the status is not 200, or the body does not decode.
\<close>

fun attempt_failed :: "attempt_result \<Rightarrow> bool" where
  "attempt_failed (NewRequestErr e) = False"
| "attempt_failed r = (decoded r = None)"

text \<open>The total time slept, and the number of requests sent, in a list of effects.\<close>

fun slept :: "effect list \<Rightarrow> int" where
  "slept [] = 0"
| "slept (Sleep d # es) = d + slept es"
| "slept (Attempt n # es) = slept es"

fun attempts :: "effect list \<Rightarrow> nat" where
  "attempts [] = 0"
| "attempts (Attempt n # es) = Suc (attempts es)"
| "attempts (Sleep d # es) = attempts es"

text \<open>
  The enriched records that wait between enrichment and dispatch: those queued in the
  channel and those the dispatcher has received into its batch.
\<close>

definition held :: "state \<Rightarrow> nat" where
  "held s = length (recordChannel s) + length (batch s)"

subsection \<open>Example inputs\<close>

definition demo_record :: "string \<Rightarrow> Record" where
  "demo_record i =
     \<lparr>ID = i, AssetName = ''web-01'', IP = ''192.0.2.7'',
      CreatedUTC = ''2024-05-01T10:00:00Z'', Source = ''csv'', Category = ''phishing'',
      ASN = [], CorrelationID = 0\<rparr>"

definition demo_data :: enrichedData where
  "demo_data = EnrichedData ''AS64500'' ''credential-phishing'' 7"

definition enriched :: "string \<Rightarrow> Record" where
  "enriched i =
     (demo_record i)\<lparr>ASN := ''AS64500'', Category := ''credential-phishing'',
                     CorrelationID := 7\<rparr>"

text \<open>An enrichment service that answers well, one that always answers 500, and one
  that is unreachable twice and then answers well.\<close>

definition env_ok :: enrich_env where
  "env_ok = \<lparr>marshal_err = None, reply = (\<lambda>n. Response 200 (Inr demo_data))\<rparr>"

definition env_down :: enrich_env where
  "env_down =
     \<lparr>marshal_err = None, reply = (\<lambda>n. Response 500 (Inl ''unexpected end of JSON input''))\<rparr>"

definition env_flaky :: enrich_env where
  "env_flaky =
     \<lparr>marshal_err = None,
      reply = (\<lambda>n. if n < 3 then DoErr ''connection refused''
                    else Response 200 (Inr demo_data))\<rparr>"

definition ok_response :: response where
  "ok_response = \<lparr>resp_status = StatusOK, resp_body = processed_body\<rparr>"

definition submit :: "string \<Rightarrow> event" where
  "submit i = Handle (Body (Inr (demo_record i))) env_ok"

text \<open>Each record is submitted, enriched and at once received by the dispatcher.\<close>

definition submit_all :: "string list \<Rightarrow> event list" where
  "submit_all ids = concat (map (\<lambda>i. [submit i, Receive]) ids)"

definition demo_ids :: "string list" where
  "demo_ids =
     [''r01'', ''r02'', ''r03'', ''r04'', ''r05'', ''r06'', ''r07'', ''r08'', ''r09'', ''r10'',
      ''r11'', ''r12'', ''r13'', ''r14'', ''r15'', ''r16'', ''r17'', ''r18'', ''r19'', ''r20'',
      ''r21'', ''r22'', ''r23'', ''r24'', ''r25'']"

definition sink_ok :: sink_result where
  "sink_ok = SinkResponse 200 ''ok'' None"

definition sink_down :: sink_result where
  "sink_down = SinkDoErr ''connection refused''"

text \<open>A case table that lowers U+0130 to \<open>i\<close> and U+00C9 to U+00E9, and no
  white space above Latin-1.\<close>

definition demo_tbl :: "rune \<Rightarrow> rune" where
  "demo_tbl r = (if r = 304 then 105 else if r = 201 then 233 else r)"

definition demo_ws :: "rune \<Rightarrow> bool" where
  "demo_ws r = False"

section \<open>Auxiliary facts\<close>

subsection \<open>One iteration of the retry loop\<close>

lemma fmt_d_3: "fmt_d 3 = ''3''"
  by (simp add: fmt_d_def fmt_nat.simps digit_def)

lemma sint_delays: "sint Second = 1000000000" "sint (Second * 2) = 2000000000"
  by (simp_all add: Second_def)

lemma decoded_Some: "decoded r = Some d \<Longrightarrow> r = Response StatusOK (Inr d)"
  by (cases r) (auto split: if_splits sum.splits)

lemma attempt_cases:
  obtains e where "r = NewRequestErr e" | d where "decoded r = Some d" | "attempt_failed r"
  by (cases r) (auto split: if_splits sum.splits)

lemma loop_exit:
  "maxRetries < n \<Longrightarrow>
     enrichRecord_loop env record n d tr =
       ((record, Some ''unexpected error during enrichment''), tr)"
  by (subst enrichRecord_loop.simps) simp

lemma loop_abort:
  "reply env n = NewRequestErr e \<Longrightarrow> n \<le> maxRetries \<Longrightarrow>
     enrichRecord_loop env record n d tr = ((record, Some e), tr)"
  by (subst enrichRecord_loop.simps) simp

lemma loop_success:
  "decoded (reply env n) = Some dd \<Longrightarrow> n \<le> maxRetries \<Longrightarrow>
     enrichRecord_loop env record n d tr =
       ((record\<lparr>ASN := eASN dd, Category := eCategory dd, CorrelationID := eCorrelationID dd\<rparr>,
         None), tr @ [Attempt n])"
  by (subst enrichRecord_loop.simps) (auto split: attempt_result.splits)

lemma loop_retry:
  "attempt_failed (reply env n) \<Longrightarrow> n < maxRetries \<Longrightarrow>
     enrichRecord_loop env record n d tr =
       enrichRecord_loop env record (Suc n) (d * 2) (tr @ [Attempt n, Sleep (sint d)])"
  by (subst enrichRecord_loop.simps) (auto split: attempt_result.splits)

lemma loop_give_up:
  "attempt_failed (reply env n) \<Longrightarrow> n = maxRetries \<Longrightarrow>
     enrichRecord_loop env record n d tr =
       ((record, Some ''failed to enrich record after 3 attempts''), tr @ [Attempt n])"
  by (subst enrichRecord_loop.simps)
     (auto simp: maxRetries_def fmt_d_3 split: attempt_result.splits)

subsection \<open>Three failed attempts\<close>

lemma all_failed_run:
  assumes m: "marshal_err env = None"
    and f1: "attempt_failed (reply env 1)"
    and f2: "attempt_failed (reply env 2)"
    and f3: "attempt_failed (reply env 3)"
  shows "enrichRecord_run env record =
           ((record, Some ''failed to enrich record after 3 attempts''),
            [Attempt 1, Sleep 1000000000, Attempt 2, Sleep 2000000000, Attempt 3])"
proof -
  have "enrichRecord_run env record = enrichRecord_loop env record 1 Second []"
    using m by (simp add: enrichRecord_run_def)
  also have "\<dots> = enrichRecord_loop env record 2 (Second * 2) [Attempt 1, Sleep (sint Second)]"
    using loop_retry [OF f1, of "record" Second "[]"]
    by (simp add: maxRetries_def numeral_2_eq_2)
  also have "\<dots> = enrichRecord_loop env record 3 (Second * 2 * 2)
                      [Attempt 1, Sleep (sint Second), Attempt 2, Sleep (sint (Second * 2))]"
    using loop_retry [OF f2, of "record" "Second * 2" "[Attempt 1, Sleep (sint Second)]"]
    by (simp add: maxRetries_def numeral_2_eq_2 numeral_3_eq_3)
  also have "\<dots> = ((record, Some ''failed to enrich record after 3 attempts''),
                      [Attempt 1, Sleep (sint Second), Attempt 2, Sleep (sint (Second * 2)),
                       Attempt 3])"
    using loop_give_up [OF f3, of "record" "Second * 2 * 2"]
    by (simp add: maxRetries_def)
  finally show ?thesis by (simp add: sint_delays)
qed

lemma env_down_failed: "marshal_err env_down = None" "attempt_failed (reply env_down n)"
  by (simp_all add: env_down_def StatusOK_def)

subsection \<open>The effects of any call\<close>

lemma loop_effects_3:
  "prefix (snd (enrichRecord_loop env record 3 d tr)) (tr @ [Attempt 3])"
proof (cases "reply env 3" rule: attempt_cases)
  case (1 e)
  then show ?thesis by (simp add: loop_abort maxRetries_def)
next
  case (2 dd)
  then show ?thesis by (simp add: loop_success maxRetries_def)
next
  case 3
  then show ?thesis by (simp add: loop_give_up maxRetries_def)
qed

lemma loop_effects_2:
  "prefix (snd (enrichRecord_loop env record 2 d tr))
     (tr @ [Attempt 2, Sleep (sint d), Attempt 3])"
proof (cases "reply env 2" rule: attempt_cases)
  case (1 e)
  then show ?thesis by (simp add: loop_abort maxRetries_def)
next
  case (2 dd)
  then show ?thesis by (simp add: loop_success maxRetries_def)
next
  case 3
  then have "enrichRecord_loop env record 2 d tr
               = enrichRecord_loop env record 3 (d * 2) (tr @ [Attempt 2, Sleep (sint d)])"
    using loop_retry [of env 2 "record" d tr]
    by (simp add: maxRetries_def numeral_3_eq_3 numeral_2_eq_2)
  then show ?thesis
    using loop_effects_3 [of env "record" "d * 2" "tr @ [Attempt 2, Sleep (sint d)]"] by simp
qed

lemma loop_effects_1:
  "prefix (snd (enrichRecord_loop env record 1 d tr))
     (tr @ [Attempt 1, Sleep (sint d), Attempt 2, Sleep (sint (d * 2)), Attempt 3])"
proof (cases "reply env 1" rule: attempt_cases)
  case (1 e)
  then show ?thesis by (simp add: loop_abort maxRetries_def)
next
  case (2 dd)
  then show ?thesis by (simp add: loop_success maxRetries_def)
next
  case 3
  then have "enrichRecord_loop env record 1 d tr
               = enrichRecord_loop env record 2 (d * 2) (tr @ [Attempt 1, Sleep (sint d)])"
    using loop_retry [of env 1 "record" d tr] by (simp add: maxRetries_def numeral_2_eq_2)
  then show ?thesis
    using loop_effects_2 [of env "record" "d * 2" "tr @ [Attempt 1, Sleep (sint d)]"] by simp
qed

lemma effects_prefix:
  "prefix (enrichRecord_effects env record)
     [Attempt 1, Sleep 1000000000, Attempt 2, Sleep 2000000000, Attempt 3]"
proof (cases "marshal_err env")
  case None
  then show ?thesis
    using loop_effects_1 [of env "record" Second "[]"]
    by (simp add: enrichRecord_effects_def enrichRecord_run_def sint_delays)
next
  case (Some e)
  then show ?thesis by (simp add: enrichRecord_effects_def enrichRecord_run_def)
qed

lemma attempts_append: "attempts (xs @ ys) = attempts xs + attempts ys"
  by (induction xs rule: attempts.induct) auto

lemma attempts_prefix: "prefix xs ys \<Longrightarrow> attempts xs \<le> attempts ys"
  by (auto simp: prefix_def attempts_append)

subsection \<open>A call that succeeds\<close>

lemma loop_success_inv:
  "enrichRecord_loop env record n d tr = ((r', None), tr') \<Longrightarrow>
     \<exists>m dd. n \<le> m \<and> m \<le> maxRetries \<and> decoded (reply env m) = Some dd
       \<and> (\<forall>k. n \<le> k \<and> k < m \<longrightarrow> attempt_failed (reply env k))
       \<and> r' = record\<lparr>ASN := eASN dd, Category := eCategory dd,
                       CorrelationID := eCorrelationID dd\<rparr>"
proof (induction "maxRetries - n" arbitrary: n d tr)
  case 0
  show ?case
  proof (cases "maxRetries < n")
    case True
    with "0.prems" show ?thesis by (simp add: loop_exit)
  next
    case False
    with "0.hyps" have n: "n = maxRetries" by simp
    show ?thesis
    proof (cases "reply env n" rule: attempt_cases)
      case (1 e)
      with "0.prems" n show ?thesis by (simp add: loop_abort)
    next
      case (2 dd)
      with "0.prems" n
      have "r' = record\<lparr>ASN := eASN dd, Category := eCategory dd,
                         CorrelationID := eCorrelationID dd\<rparr>"
        by (simp add: loop_success)
      with 2 n show ?thesis by (intro exI [of _ n] exI [of _ dd]) auto
    next
      case 3
      with "0.prems" n show ?thesis by (simp add: loop_give_up)
    qed
  qed
next
  case (Suc x)
  then have lt: "n < maxRetries" by simp
  show ?case
  proof (cases "reply env n" rule: attempt_cases)
    case (1 e)
    with Suc.prems lt show ?thesis by (simp add: loop_abort)
  next
    case (2 dd)
    with Suc.prems lt
    have "r' = record\<lparr>ASN := eASN dd, Category := eCategory dd,
                       CorrelationID := eCorrelationID dd\<rparr>"
      by (simp add: loop_success)
    with 2 lt show ?thesis by (intro exI [of _ n] exI [of _ dd]) auto
  next
    case 3
    with Suc.prems lt
    have later: "enrichRecord_loop env record (Suc n) (d * 2) (tr @ [Attempt n, Sleep (sint d)])
                 = ((r', None), tr')"
      by (simp add: loop_retry)
    from Suc.hyps(2) have "x = maxRetries - Suc n" by simp
    from Suc.hyps(1) [OF this later] obtain m dd where
      m: "Suc n \<le> m" "m \<le> maxRetries" "decoded (reply env m) = Some dd"
        "\<forall>k. Suc n \<le> k \<and> k < m \<longrightarrow> attempt_failed (reply env k)"
        "r' = record\<lparr>ASN := eASN dd, Category := eCategory dd,
                       CorrelationID := eCorrelationID dd\<rparr>"
      by blast
    have "\<forall>k. n \<le> k \<and> k < m \<longrightarrow> attempt_failed (reply env k)"
    proof (intro allI impI)
      fix k assume "n \<le> k \<and> k < m"
      then have "k = n \<or> (Suc n \<le> k \<and> k < m)" by auto
      with 3 m(4) show "attempt_failed (reply env k)" by auto
    qed
    with m show ?thesis by (intro exI [of _ m] exI [of _ dd]) auto
  qed
qed

lemma enrich_success_id: "enrichRecord env rcd = (r', None) \<Longrightarrow> ID r' = ID rcd"
proof -
  assume a: "enrichRecord env rcd = (r', None)"
  then have "marshal_err env = None"
    by (auto simp: enrichRecord_def enrichRecord_run_def split: option.splits)
  with a obtain tr' where "enrichRecord_loop env rcd 1 Second [] = ((r', None), tr')"
    by (cases "enrichRecord_loop env rcd 1 Second []")
       (auto simp: enrichRecord_def enrichRecord_run_def)
  from loop_success_inv [OF this] show ?thesis by auto
qed

subsection \<open>The handler\<close>

lemma processHandler_HandOff:
  "processHandler env r = HandOff r' resp \<Longrightarrow>
     \<exists>record. r = Body (Inr record) \<and> enrichRecord env record = (r', None)"
  by (auto simp: processHandler_def split: request.splits sum.splits prod.splits option.splits)

lemma processHandler_failed:
  "snd (enrichRecord env record) \<noteq> None \<Longrightarrow>
     processHandler env (Body (Inr record)) =
       Reject (http_Error ''Failed to enrich record'' StatusInternalServerError)"
  by (auto simp: processHandler_def split: prod.splits option.splits)

lemma handed_off_origin:
  "r' \<in> set (handed_off evs) \<Longrightarrow>
     \<exists>rcd env. Handle (Body (Inr rcd)) env \<in> set evs
        \<and> enrichRecord env rcd = (r', None)"
proof (induction evs)
  case Nil
  then show ?case by simp
next
  case (Cons e es)
  show ?case
  proof (cases e)
    case (Handle r env)
    show ?thesis
    proof (cases "processHandler env r")
      case (Reject resp)
      with Cons Handle show ?thesis by auto
    next
      case (HandOff x resp)
      from processHandler_HandOff [OF this] obtain rcd where
        "r = Body (Inr rcd)" "enrichRecord env rcd = (x, None)" by blast
      with Cons Handle HandOff show ?thesis by auto
    qed
  next
    case Receive
    with Cons show ?thesis by auto
  next
    case (Tick sr)
    with Cons show ?thesis by auto
  qed
qed

subsection \<open>The dispatcher\<close>

lemma on_tick_fields:
  "recordChannel (on_tick sr s) = recordChannel s"
  "answered (on_tick sr s) = answered s"
  "batch (on_tick sr s) = drop 20 (batch s)"
  "sent (on_tick sr s) = (if batch s = [] then sent s else sent s @ [take 20 (batch s)])"
  by (auto simp: on_tick_def Let_def split: option.splits)

lemma on_tick_failed:
  "batch s \<noteq> [] \<Longrightarrow> sendToAnalytics (take 20 (batch s)) sr = Some e \<Longrightarrow>
     on_tick sr s = s\<lparr>batch := drop 20 (batch s), sent := sent s @ [take 20 (batch s)],
        logged := logged s @ [''Failed to send batch to Analytics Service: '' @ e]\<rparr>"
  by (cases "20 \<le> length (batch s)") (simp_all add: on_tick_def)

lemma held_on_tick:
  "concat (sent (on_tick sr s)) @ batch (on_tick sr s) = concat (sent s) @ batch s"
  by (simp add: on_tick_fields)

lemma handed_off_Cons: "handed_off (e # es) = handed_off [e] @ handed_off es"
  by (cases e) (auto split: handler_outcome.splits)

lemma held_step:
  "step s e = Some s' \<Longrightarrow>
     concat (sent s') @ batch s' @ recordChannel s'
       = concat (sent s) @ batch s @ recordChannel s @ handed_off [e]"
proof (cases e)
  case (Handle r env)
  assume "step s e = Some s'"
  with Handle show ?thesis
    by (auto split: handler_outcome.splits if_splits)
next
  case Receive
  assume "step s e = Some s'"
  with Receive show ?thesis
    by (auto split: list.splits)
next
  case (Tick sr)
  assume "step s e = Some s'"
  with Tick have "s' = on_tick sr s" by simp
  with Tick show ?thesis
    using held_on_tick [of sr s] by (simp add: on_tick_fields(1))
qed

lemma held_run:
  "run s evs = Some s' \<Longrightarrow>
     concat (sent s') @ batch s' @ recordChannel s'
       = concat (sent s) @ batch s @ recordChannel s @ handed_off evs"
proof (induction evs arbitrary: s)
  case Nil
  then show ?case by simp
next
  case (Cons e es)
  from Cons.prems obtain t where t: "step s e = Some t" and r: "run t es = Some s'"
    by (auto split: option.splits)
  from held_step [OF t] Cons.IH [OF r] show ?case
    by (simp add: handed_off_Cons [of e es])
qed

lemma batches_step:
  "step s e = Some s' \<Longrightarrow> \<forall>b \<in> set (sent s). b \<noteq> [] \<and> length b \<le> 20 \<Longrightarrow>
     \<forall>b \<in> set (sent s'). b \<noteq> [] \<and> length b \<le> 20"
  by (cases e)
     (auto simp: on_tick_fields split: handler_outcome.splits if_splits list.splits)

lemma batches_run:
  "run s evs = Some s' \<Longrightarrow> \<forall>b \<in> set (sent s). b \<noteq> [] \<and> length b \<le> 20 \<Longrightarrow>
     \<forall>b \<in> set (sent s'). b \<noteq> [] \<and> length b \<le> 20"
proof (induction evs arbitrary: s)
  case Nil
  then show ?case by simp
next
  case (Cons e es)
  from Cons.prems(1) obtain t where t: "step s e = Some t" and r: "run t es = Some s'"
    by (auto split: option.splits)
  from Cons.IH [OF r batches_step [OF t Cons.prems(2)]] show ?case .
qed

lemma chan_bound_step:
  "step s e = Some s' \<Longrightarrow> length (recordChannel s) \<le> channelCap \<Longrightarrow>
     length (recordChannel s') \<le> channelCap"
  by (cases e)
     (auto simp: on_tick_fields split: handler_outcome.splits if_splits list.splits)

lemma chan_bound_run:
  "run s evs = Some s' \<Longrightarrow> length (recordChannel s) \<le> channelCap \<Longrightarrow>
     length (recordChannel s') \<le> channelCap"
proof (induction evs arbitrary: s)
  case Nil
  then show ?case by simp
next
  case (Cons e es)
  from Cons.prems(1) obtain t where t: "step s e = Some t" and r: "run t es = Some s'"
    by (auto split: option.splits)
  from Cons.IH [OF r chan_bound_step [OF t Cons.prems(2)]] show ?case .
qed

lemma run_append:
  "run s (xs @ ys) = (case run s xs of None \<Rightarrow> None | Some t \<Rightarrow> run t ys)"
  by (induction xs arbitrary: s) (auto split: option.splits)

subsection \<open>The example inputs\<close>

lemma enrich_env_ok: "enrichRecord env_ok (demo_record i) = (enriched i, None)"
  by (simp add: enrichRecord_def enrichRecord_run_def env_ok_def
        enrichRecord_loop.simps [of _ _ "Suc 0"] maxRetries_def StatusOK_def demo_data_def
        enriched_def)

lemma handler_env_ok:
  "processHandler env_ok (Body (Inr (demo_record i))) = HandOff (enriched i) ok_response"
  by (simp add: processHandler_def enrich_env_ok ok_response_def)

lemma step_submit:
  "length (recordChannel s) < 20 \<Longrightarrow>
     step s (submit i) = Some (s\<lparr>recordChannel := recordChannel s @ [enriched i],
                                 answered := answered s @ [ok_response]\<rparr>)"
  by (simp add: submit_def handler_env_ok channelCap_def)

lemma run_submit_all:
  "recordChannel s = [] \<Longrightarrow>
     run s (submit_all ids) =
       Some (s\<lparr>batch := batch s @ map enriched ids,
               answered := answered s @ replicate (length ids) ok_response\<rparr>)"
proof (induction ids arbitrary: s)
  case Nil
  then show ?case by (simp add: submit_all_def)
next
  case (Cons i ids)
  let ?t = "s\<lparr>batch := batch s @ [enriched i], answered := answered s @ [ok_response]\<rparr>"
  from Cons.prems have "run s [submit i, Receive] = Some ?t"
    by (simp add: step_submit)
  moreover have "recordChannel ?t = []" using Cons.prems by simp
  from Cons.IH [OF this] have "run ?t (submit_all ids) =
       Some (s\<lparr>batch := batch s @ map enriched (i # ids),
               answered := answered s @ replicate (length (i # ids)) ok_response\<rparr>)"
    by (simp add: replicate_app_Cons_same)
  moreover have "submit_all (i # ids) = [submit i, Receive] @ submit_all ids"
    by (simp add: submit_all_def)
  ultimately show ?case by (simp only: run_append option.case)
qed

lemma run_fill:
  "length (recordChannel s) + length ids \<le> 20 \<Longrightarrow>
     run s (map submit ids) =
       Some (s\<lparr>recordChannel := recordChannel s @ map enriched ids,
               answered := answered s @ replicate (length ids) ok_response\<rparr>)"
proof (induction ids arbitrary: s)
  case Nil
  then show ?case by simp
next
  case (Cons i ids)
  let ?t = "s\<lparr>recordChannel := recordChannel s @ [enriched i],
               answered := answered s @ [ok_response]\<rparr>"
  from Cons.prems have "step s (submit i) = Some ?t" by (simp add: step_submit)
  moreover from Cons.prems have "length (recordChannel ?t) + length ids \<le> 20" by simp
  from Cons.IH [OF this] have "run ?t (map submit ids) =
       Some (s\<lparr>recordChannel := recordChannel s @ map enriched (i # ids),
               answered := answered s @ replicate (length (i # ids)) ok_response\<rparr>)"
    by (simp add: replicate_app_Cons_same)
  ultimately show ?case by simp
qed

subsection \<open>Lower-casing and trimming\<close>

lemma lower_idem:
  assumes "\<forall>r. 127 < r \<longrightarrow> unicode_ToLower tbl (tbl r) = tbl r"
  shows "unicode_ToLower tbl (unicode_ToLower tbl r) = unicode_ToLower tbl r"
proof (cases "r \<le> 127")
  case True
  then show ?thesis by (simp add: unicode_ToLower_def)
next
  case False
  with assms show ?thesis by (simp add: unicode_ToLower_def [of tbl r])
qed

lemma set_TrimSpace: "set (TrimSpace ws s) \<subseteq> set s"
proof -
  have "set (dropWhile (unicode_IsSpace ws) (rev (dropWhile (unicode_IsSpace ws) s)))
          \<subseteq> set (rev (dropWhile (unicode_IsSpace ws) s))"
    by (rule set_dropWhileD [THEN subsetI])
  also have "\<dots> \<subseteq> set s" using set_dropWhileD by fastforce
  finally show ?thesis by (simp add: TrimSpace_def)
qed

lemma dropWhile_rev_fixed:
  assumes "u = dropWhile P (rev (dropWhile P s))"
  shows "dropWhile P (rev u) = rev u"
proof (cases "u = []")
  case True
  then show ?thesis by simp
next
  case False
  let ?t = "dropWhile P s"
  have split: "rev ?t = takeWhile P (rev ?t) @ u"
    using assms by simp
  have t: "?t \<noteq> []"
  proof
    assume "?t = []"
    with assms have "u = []" by simp
    with False show False by simp
  qed
  from split False have "last (rev ?t) = last u"
    by (metis last_appendR)
  with t have "last u = hd ?t" by (simp add: last_rev)
  moreover from t have "\<not> P (hd ?t)" by (rule hd_dropWhile)
  ultimately have "\<not> P (hd (rev u))" using False by (simp add: hd_rev)
  then show ?thesis by (simp add: dropWhile_eq_self_iff)
qed

lemma TrimSpace_idem: "TrimSpace ws (TrimSpace ws s) = TrimSpace ws s"
  using dropWhile_rev_fixed [OF refl, of "unicode_IsSpace ws" s]
  by (simp add: TrimSpace_def)

lemma ToLower_fixed:
  assumes "\<forall>r. 127 < r \<longrightarrow> unicode_ToLower tbl (tbl r) = tbl r"
  shows "ToLower tbl (TrimSpace ws (ToLower tbl s)) = TrimSpace ws (ToLower tbl s)"
proof -
  have "\<forall>x \<in> set (TrimSpace ws (ToLower tbl s)). unicode_ToLower tbl x = x"
  proof
    fix x assume "x \<in> set (TrimSpace ws (ToLower tbl s))"
    with set_TrimSpace have "x \<in> set (ToLower tbl s)" by blast
    then obtain r where "x = unicode_ToLower tbl r" by (auto simp: ToLower_def)
    with lower_idem [OF assms] show "unicode_ToLower tbl x = x" by simp
  qed
  then show ?thesis by (simp add: ToLower_def map_idI)
qed

lemma canonical_values:
  "(k, c) \<in> set categoryMap \<Longrightarrow>
     c \<in> set (map runes [''contentinjection'', ''drivebycompromise'',
       ''exploitpublicfacingapplication'', ''externalremoteservices'', ''phishing'',
       ''replicationthroughremovablemedia'', ''supplychaincompromise'',
       ''trustedrelationship'', ''validaccounts''])"
  unfolding categoryMap_def
  by (simp only: list.map prod.case set_simps insert_iff empty_iff prod.inject) blast

lemma canonical_fixed: "(k, c) \<in> set categoryMap \<Longrightarrow> sanitizeCategory tbl ws c = c"
proof -
  assume "(k, c) \<in> set categoryMap"
  from canonical_values [OF this] show ?thesis
    apply (simp only: list.map set_simps insert_iff empty_iff)
    apply (elim disjE)
    apply (simp_all add: sanitizeCategory_def TrimSpace_def ToLower_def unicode_ToLower_def
      unicode_IsSpace_def categoryMap_def runes_def)
    done
qed

lemma demo_tbl_ok: "\<forall>r. 127 < r \<longrightarrow> unicode_ToLower demo_tbl (demo_tbl r) = demo_tbl r"
  by (simp add: unicode_ToLower_def demo_tbl_def)

section \<open>The enrichment client: properties\<close>

text \<open>
  Claim C3. When \<open>enrichRecord\<close> succeeds, the record it returns has the \<open>ID\<close>,
  \<open>AssetName\<close>, \<open>IP\<close>, \<open>CreatedUTC\<close> and \<open>Source\<close> of the input record, and its
  \<open>ASN\<close>, \<open>Category\<close> and \<open>CorrelationID\<close> are those of the response of the
  enrichment service: the status-200, well-formed response of attempt \<open>n\<close>, the first
  attempt that did not fail.
\<close>

theorem enrich_success_fields:
  assumes "enrichRecord env record = (r', None)"
  shows "\<exists>n d. 1 \<le> n \<and> n \<le> maxRetries \<and> reply env n = Response StatusOK (Inr d)
           \<and> (\<forall>k. 1 \<le> k \<and> k < n \<longrightarrow> attempt_failed (reply env k))
           \<and> ID r' = ID record \<and> AssetName r' = AssetName record \<and> IP r' = IP record
           \<and> CreatedUTC r' = CreatedUTC record \<and> Source r' = Source record
           \<and> ASN r' = eASN d \<and> Category r' = eCategory d
           \<and> CorrelationID r' = eCorrelationID d"
proof -
  from assms have m: "marshal_err env = None"
    by (auto simp: enrichRecord_def enrichRecord_run_def split: option.splits)
  with assms obtain tr' where "enrichRecord_loop env record 1 Second [] = ((r', None), tr')"
    by (cases "enrichRecord_loop env record 1 Second []")
       (auto simp: enrichRecord_def enrichRecord_run_def)
  from loop_success_inv [OF this] obtain n d where
    n: "1 \<le> n" "n \<le> maxRetries" "decoded (reply env n) = Some d"
      "\<forall>k. 1 \<le> k \<and> k < n \<longrightarrow> attempt_failed (reply env k)"
      "r' = record\<lparr>ASN := eASN d, Category := eCategory d, CorrelationID := eCorrelationID d\<rparr>"
    by blast
  from decoded_Some [OF n(3)] n show ?thesis
    by (intro exI [of _ n] exI [of _ d]) simp
qed

theorem enrich_success_fields_witness:
  "enrichRecord env_flaky (demo_record ''r1'')
     = (demo_record ''r1''\<lparr>ASN := ''AS64500'', Category := ''credential-phishing'',
                            CorrelationID := 7\<rparr>, None)
   \<and> ID (fst (enrichRecord env_flaky (demo_record ''r1''))) = ''r1''
   \<and> Source (fst (enrichRecord env_flaky (demo_record ''r1''))) = ''csv''
   \<and> Category (fst (enrichRecord env_flaky (demo_record ''r1''))) = eCategory demo_data"
proof -
  have f: "attempt_failed (reply env_flaky 1)" "attempt_failed (reply env_flaky 2)"
    "decoded (reply env_flaky 3) = Some demo_data"
    by (simp_all add: env_flaky_def StatusOK_def)
  have "enrichRecord_run env_flaky (demo_record ''r1'')
          = enrichRecord_loop env_flaky (demo_record ''r1'') 1 Second []"
    by (simp add: enrichRecord_run_def env_flaky_def)
  also have "\<dots> = enrichRecord_loop env_flaky (demo_record ''r1'') 2 (Second * 2)
                      [Attempt 1, Sleep (sint Second)]"
    using loop_retry [OF f(1), of "demo_record ''r1''" Second "[]"]
    by (simp add: maxRetries_def numeral_2_eq_2)
  also have "\<dots> = enrichRecord_loop env_flaky (demo_record ''r1'') 3 (Second * 2 * 2)
       [Attempt 1, Sleep (sint Second), Attempt 2, Sleep (sint (Second * 2))]"
    using loop_retry [OF f(2), of "demo_record ''r1''" "Second * 2"
                        "[Attempt 1, Sleep (sint Second)]"]
    by (simp add: maxRetries_def numeral_2_eq_2 numeral_3_eq_3)
  finally have e: "enrichRecord env_flaky (demo_record ''r1'')
     = (demo_record ''r1''\<lparr>ASN := ''AS64500'', Category := ''credential-phishing'',
                            CorrelationID := 7\<rparr>, None)"
    using loop_success [OF f(3), of "demo_record ''r1''" "Second * 2 * 2"]
    by (simp add: enrichRecord_def maxRetries_def demo_data_def)
  from enrich_success_fields [OF e] e show ?thesis
    by (auto simp: demo_record_def demo_data_def)
qed

text \<open>
  Claim C4. Whatever the enrichment service does, one call of \<open>enrichRecord\<close> sends at
  most 3 requests; it sleeps 1 second between the first and the second and 2 seconds
  between the second and the third, and does nothing else: its effects are an initial
  part of attempt 1, sleep of one second, attempt 2, sleep of two seconds, attempt 3.
\<close>

theorem retry_schedule:
  "prefix (enrichRecord_effects env record)
     [Attempt 1, Sleep (sint Second), Attempt 2, Sleep (2 * sint Second), Attempt 3]
   \<and> attempts (enrichRecord_effects env record) \<le> 3
   \<and> sint Second = 1000000000"
  using effects_prefix [of env "record"]
    attempts_prefix [OF effects_prefix [of env "record"]]
  by (simp add: sint_delays)

text \<open>
  Claim C5, as the code has it. When all three attempts fail, \<open>enrichRecord\<close> sleeps
  after the first and after the second attempt only, 1 and 2 seconds: the total backoff
  before it gives up is 3 seconds. No sleep follows the third attempt.
\<close>

theorem backoff_total_when_all_fail:
  assumes "marshal_err env = None"
    and "attempt_failed (reply env 1)"
    and "attempt_failed (reply env 2)"
    and "attempt_failed (reply env 3)"
  shows "enrichRecord_effects env record =
           [Attempt 1, Sleep (sint Second), Attempt 2, Sleep (2 * sint Second), Attempt 3]
         \<and> slept (enrichRecord_effects env record) = 3 * sint Second
         \<and> snd (enrichRecord env record) \<noteq> None"
  using all_failed_run [OF assms, of "record"]
  by (simp add: enrichRecord_effects_def enrichRecord_def sint_delays)

theorem backoff_total_when_all_fail_witness:
  "marshal_err env_down = None
   \<and> attempt_failed (reply env_down 1) \<and> attempt_failed (reply env_down 2)
   \<and> attempt_failed (reply env_down 3)
   \<and> enrichRecord_effects env_down (demo_record ''X'') =
       [Attempt 1, Sleep 1000000000, Attempt 2, Sleep 2000000000, Attempt 3]
   \<and> slept (enrichRecord_effects env_down (demo_record ''X'')) = 3000000000"
  using backoff_total_when_all_fail [OF env_down_failed(1) env_down_failed(2)
      env_down_failed(2) env_down_failed(2), of "demo_record ''X''"]
  by (simp add: env_down_failed sint_delays)

text \<open>
  The claim C5 as stated asks for at least 7 seconds of backoff. With a service that
  answers 500 three times the call gives up after 3 seconds of sleep.
\<close>

theorem backoff_seven_counterexample:
  "snd (enrichRecord env_down (demo_record ''X'')) \<noteq> None
   \<and> slept (enrichRecord_effects env_down (demo_record ''X'')) = 3 * sint Second
   \<and> \<not> (7 * sint Second \<le> slept (enrichRecord_effects env_down (demo_record ''X'')))"
  using all_failed_run [OF env_down_failed(1) env_down_failed(2) env_down_failed(2)
      env_down_failed(2), of "demo_record ''X''"]
  by (simp add: enrichRecord_effects_def enrichRecord_def sint_delays)

text \<open>
  Claim C7, as the code has it. When the third attempt fails (after the first two did),
  \<open>enrichRecord\<close> returns the input record and the error
  \<open>failed to enrich record after 3 attempts\<close>: the message carries the attempt count and
  nothing of the record.
\<close>

theorem terminal_error_message:
  assumes "marshal_err env = None"
    and "attempt_failed (reply env 1)"
    and "attempt_failed (reply env 2)"
    and "attempt_failed (reply env 3)"
  shows "enrichRecord env record = (record, Some ''failed to enrich record after 3 attempts'')"
  using all_failed_run [OF assms, of "record"]
  by (simp add: enrichRecord_def)

theorem terminal_error_message_witness:
  "marshal_err env_down = None
   \<and> attempt_failed (reply env_down 1) \<and> attempt_failed (reply env_down 2)
   \<and> attempt_failed (reply env_down 3)
   \<and> enrichRecord env_down (demo_record ''X'')
       = (demo_record ''X'', Some ''failed to enrich record after 3 attempts'')"
  using terminal_error_message [OF env_down_failed(1) env_down_failed(2)
      env_down_failed(2) env_down_failed(2), of "demo_record ''X''"]
  by (simp add: env_down_failed)

text \<open>
  The claim C7 as stated wants the error to identify the record's id. Two records with
  different ids get the same error.
\<close>

theorem terminal_error_id_counterexample:
  "ID (demo_record ''X'') \<noteq> ID (demo_record ''Y'')
   \<and> snd (enrichRecord env_down (demo_record ''X''))
       = Some ''failed to enrich record after 3 attempts''
   \<and> snd (enrichRecord env_down (demo_record ''Y''))
       = snd (enrichRecord env_down (demo_record ''X''))"
  using all_failed_run [OF env_down_failed(1) env_down_failed(2) env_down_failed(2)
      env_down_failed(2), of "demo_record ''X''"]
    all_failed_run [OF env_down_failed(1) env_down_failed(2) env_down_failed(2)
      env_down_failed(2), of "demo_record ''Y''"]
  by (simp add: enrichRecord_def demo_record_def)

section \<open>The handler, the channel and the dispatcher: properties\<close>

text \<open>
  Claim C1. In every run of the service from its initial state, every batch passed to
  \<open>sendToAnalytics\<close> has at most 20 records, and the batches sent so far, followed
  by the dispatcher's current batch and the content of the channel, are exactly the
  records that the handlers sent on the channel, in the order of these sends: batches
  are cut from the front of the queue, nothing is reordered, dropped or duplicated.
\<close>

theorem dispatched_batches_bounded_fifo:
  assumes "run init evs = Some s"
  shows "(\<forall>b \<in> set (sent s). length b \<le> 20)
         \<and> concat (sent s) @ batch s @ recordChannel s = handed_off evs"
proof -
  have "\<forall>b \<in> set (sent init). b \<noteq> [] \<and> length b \<le> 20" by (simp add: init_def)
  from batches_run [OF assms this] have "\<forall>b \<in> set (sent s). length b \<le> 20"
    by simp
  moreover from held_run [OF assms]
  have "concat (sent s) @ batch s @ recordChannel s = handed_off evs"
    by (simp add: init_def)
  ultimately show ?thesis by simp
qed

theorem dispatched_batches_bounded_fifo_witness:
  "run init (submit_all [''a'', ''b''] @ [Tick sink_ok, submit ''c'']) =
     Some \<lparr>recordChannel = [enriched ''c''], batch = [],
           sent = [[enriched ''a'', enriched ''b'']], logged = [],
           answered = [ok_response, ok_response, ok_response]\<rparr>
   \<and> length [enriched ''a'', enriched ''b''] \<le> 20
   \<and> handed_off (submit_all [''a'', ''b''] @ [Tick sink_ok, submit ''c''])
       = [enriched ''a'', enriched ''b'', enriched ''c'']"
proof -
  have r: "run init (submit_all [''a'', ''b''] @ [Tick sink_ok, submit ''c'']) =
     Some \<lparr>recordChannel = [enriched ''c''], batch = [],
           sent = [[enriched ''a'', enriched ''b'']], logged = [],
           answered = [ok_response, ok_response, ok_response]\<rparr>"
    by (simp add: run_append run_submit_all init_def on_tick_def sink_ok_def StatusOK_def
          step_submit)
  from dispatched_batches_bounded_fifo [OF r] r show ?thesis by simp
qed

text \<open>
  Claim C2. In every run of the service, each record in a dispatched batch, in the
  dispatcher's batch or in the channel is the result of a successful \<open>enrichRecord\<close>
  of some handler of that run. A handler whose enrichment returns an error answers
  with status 500, sends nothing on the channel and leaves everything but the list of
  answers as it was. So when every submission with the id \<open>x\<close> failed to be enriched,
  no record with the id \<open>x\<close> is in a dispatched batch, in the batch or in the channel.
\<close>

theorem failed_enrichment_never_buffered:
  assumes "run init evs = Some s"
  shows "(\<forall>r' \<in> set (concat (sent s)) \<union> set (batch s) \<union> set (recordChannel s).
            \<exists>rcd env'. Handle (Body (Inr rcd)) env' \<in> set evs
               \<and> enrichRecord env' rcd = (r', None))
         \<and> (snd (enrichRecord env record) \<noteq> None \<longrightarrow>
              processHandler env (Body (Inr record)) =
                Reject (http_Error ''Failed to enrich record'' StatusInternalServerError)
              \<and> handed_off [Handle (Body (Inr record)) env] = []
              \<and> step s (Handle (Body (Inr record)) env) =
                  Some (s\<lparr>answered := answered s @
                     [http_Error ''Failed to enrich record'' StatusInternalServerError]\<rparr>))
         \<and> ((\<forall>rcd env'. Handle (Body (Inr rcd)) env' \<in> set evs \<and> ID rcd = x
                 \<longrightarrow> snd (enrichRecord env' rcd) \<noteq> None) \<longrightarrow>
              (\<forall>r' \<in> set (concat (sent s)) \<union> set (batch s) \<union> set (recordChannel s).
                 ID r' \<noteq> x))"
proof -
  have "set (concat (sent s)) \<union> set (batch s) \<union> set (recordChannel s)
          = set (concat (sent s) @ batch s @ recordChannel s)"
    by auto
  also from held_run [OF assms] have "\<dots> = set (handed_off evs)"
    by (simp add: init_def)
  finally have origin:
    "\<forall>r' \<in> set (concat (sent s)) \<union> set (batch s) \<union> set (recordChannel s).
            \<exists>rcd env'. Handle (Body (Inr rcd)) env' \<in> set evs
               \<and> enrichRecord env' rcd = (r', None)"
    using handed_off_origin [of _ evs] by blast
  have absent: "\<forall>r' \<in> set (concat (sent s)) \<union> set (batch s) \<union> set (recordChannel s).
                 ID r' \<noteq> x"
    if fails: "\<forall>rcd env'. Handle (Body (Inr rcd)) env' \<in> set evs \<and> ID rcd = x
                 \<longrightarrow> snd (enrichRecord env' rcd) \<noteq> None"
  proof
    fix r' assume "r' \<in> set (concat (sent s)) \<union> set (batch s) \<union> set (recordChannel s)"
    with origin obtain rcd env' where
      h: "Handle (Body (Inr rcd)) env' \<in> set evs" and e: "enrichRecord env' rcd = (r', None)"
      by blast
    from e have "snd (enrichRecord env' rcd) = None" by simp
    with fails h have "ID rcd \<noteq> x" by blast
    with enrich_success_id [OF e] show "ID r' \<noteq> x" by simp
  qed
  from origin absent show ?thesis
    by (simp add: processHandler_failed)
qed

theorem failed_enrichment_never_buffered_witness:
  "run init (Handle (Body (Inr (demo_record ''X''))) env_down # submit_all [''a'']
             @ [Tick sink_ok]) =
     Some \<lparr>recordChannel = [], batch = [], sent = [[enriched ''a'']], logged = [],
           answered = [http_Error ''Failed to enrich record'' 500, ok_response]\<rparr>
   \<and> snd (enrichRecord env_down (demo_record ''X''))
       = Some ''failed to enrich record after 3 attempts''
   \<and> processHandler env_down (Body (Inr (demo_record ''X'')))
       = Reject (http_Error ''Failed to enrich record'' 500)
   \<and> handed_off [Handle (Body (Inr (demo_record ''X''))) env_down] = []
   \<and> ID (enriched ''a'') \<noteq> ''X''"
proof -
  have e: "enrichRecord env_down (demo_record ''X'')
             = (demo_record ''X'', Some ''failed to enrich record after 3 attempts'')"
    using all_failed_run [OF env_down_failed(1) env_down_failed(2) env_down_failed(2)
      env_down_failed(2), of "demo_record ''X''"]
    by (simp add: enrichRecord_def)
  then have h: "processHandler env_down (Body (Inr (demo_record ''X'')))
             = Reject (http_Error ''Failed to enrich record'' 500)"
    by (simp add: processHandler_def StatusInternalServerError_def)
  have r: "run init (Handle (Body (Inr (demo_record ''X''))) env_down # submit_all [''a'']
             @ [Tick sink_ok]) =
     Some \<lparr>recordChannel = [], batch = [], sent = [[enriched ''a'']], logged = [],
           answered = [http_Error ''Failed to enrich record'' 500, ok_response]\<rparr>"
    by (simp add: h run_append run_submit_all init_def on_tick_def sink_ok_def StatusOK_def)
  note t = failed_enrichment_never_buffered [OF r, of env_down "demo_record ''X''" "''X''"]
  from e have g2: "snd (enrichRecord env_down (demo_record ''X''))
       = Some ''failed to enrich record after 3 attempts''"
    by simp
  from t [THEN conjunct2, THEN conjunct1] g2
  have g34: "processHandler env_down (Body (Inr (demo_record ''X'')))
       = Reject (http_Error ''Failed to enrich record'' 500)
     \<and> handed_off [Handle (Body (Inr (demo_record ''X''))) env_down] = []"
    by (simp add: StatusInternalServerError_def)
  have "\<forall>rcd env'. Handle (Body (Inr rcd)) env' \<in> set (Handle (Body (Inr (demo_record ''X'')))
            env_down # submit_all [''a''] @ [Tick sink_ok]) \<and> ID rcd = ''X''
          \<longrightarrow> snd (enrichRecord env' rcd) \<noteq> None"
    using g2 by (auto simp: submit_all_def submit_def demo_record_def)
  with t [THEN conjunct2, THEN conjunct2] have g5: "ID (enriched ''a'') \<noteq> ''X''"
    by simp
  show ?thesis by (rule conjI [OF r conjI [OF g2 conjI [OF g34 [THEN conjunct1]
      conjI [OF g34 [THEN conjunct2] g5]]]])
qed

text \<open>
  Claim C6, as the code has it. In every run the channel holds at most 20 records, and
  a handler's send blocks exactly when the handler has a record to send and the channel
  holds 20. The records that the dispatcher has received wait in its batch, which has
  no bound.
\<close>

theorem channel_bounded_and_blocking:
  assumes "run init evs = Some s"
  shows "length (recordChannel s) \<le> 20
         \<and> (step s (Handle r env) = None \<longleftrightarrow>
              (\<exists>r' resp. processHandler env r = HandOff r' resp)
              \<and> length (recordChannel s) = 20)"
proof -
  from chan_bound_run [OF assms] have b: "length (recordChannel s) \<le> 20"
    by (simp add: init_def channelCap_def)
  then show ?thesis
    by (cases "processHandler env r") (auto simp: channelCap_def)
qed

theorem channel_bounded_and_blocking_witness:
  "run init (map submit (replicate 20 ''a'')) =
     Some (init\<lparr>recordChannel := replicate 20 (enriched ''a''),
                answered := replicate 20 ok_response\<rparr>)
   \<and> step (init\<lparr>recordChannel := replicate 20 (enriched ''a''),
                answered := replicate 20 ok_response\<rparr>) (submit ''b'') = None
   \<and> processHandler env_ok (Body (Inr (demo_record ''b''))) = HandOff (enriched ''b'') ok_response"
proof -
  have r: "run init (map submit (replicate 20 ''a'')) =
     Some (init\<lparr>recordChannel := replicate 20 (enriched ''a''),
                answered := replicate 20 ok_response\<rparr>)"
    using run_fill [of init "replicate 20 ''a''"] by (simp add: init_def)
  from channel_bounded_and_blocking [OF r, of "Body (Inr (demo_record ''b''))" env_ok] r
  show ?thesis by (simp add: handler_env_ok submit_def)
qed

text \<open>
  The claim C6 as stated bounds by 20 the records held between enrichment and dispatch
  and lets a hand-off block when 20 are held. After 21 records were submitted and
  received by the dispatcher, 21 are held; and with 20 held in the batch a further
  hand-off goes through.
\<close>

theorem held_exceeds_capacity_counterexample:
  "map_option held (run init (submit_all (replicate 21 ''a''))) = Some 21
   \<and> \<not> (21 \<le> channelCap)
   \<and> map_option held (run init (submit_all (replicate 20 ''a''))) = Some 20
   \<and> run init (submit_all (replicate 20 ''a'') @ [submit ''b'']) \<noteq> None"
  by (simp add: run_submit_all run_append init_def held_def channelCap_def step_submit)

text \<open>
  Claim C8. Whenever the dispatcher holds more than 20 records at a tick, it sends
  exactly the 20 earliest and keeps the others, in order, for a later tick. In
  particular, when 25 records were handed off and received by the dispatcher before
  the first dispatch, the first tick sends exactly the 20 that were handed off first,
  and the next tick sends exactly the remaining 5 and leaves the batch empty.
\<close>

theorem burst_sent_in_cycles:
  assumes "run init evs = Some s"
    and "20 < length (batch s)"
  shows "step s (Tick sr1) = Some (on_tick sr1 s)
         \<and> sent (on_tick sr1 s) = sent s @ [take 20 (batch s)]
         \<and> length (take 20 (batch s)) = 20
         \<and> batch (on_tick sr1 s) = drop 20 (batch s)
         \<and> batch (on_tick sr1 s) \<noteq> []
         \<and> recordChannel (on_tick sr1 s) = recordChannel s
         \<and> (sent s = [] \<and> recordChannel s = [] \<and> length (handed_off evs) = 25 \<longrightarrow>
              run s [Tick sr1, Tick sr2] = Some (on_tick sr2 (on_tick sr1 s))
              \<and> sent (on_tick sr2 (on_tick sr1 s))
                  = [take 20 (handed_off evs), drop 20 (handed_off evs)]
              \<and> length (take 20 (handed_off evs)) = 20
              \<and> length (drop 20 (handed_off evs)) = 5
              \<and> batch (on_tick sr2 (on_tick sr1 s)) = [])"
proof -
  from assms(2) have ne: "batch s \<noteq> []" by auto
  from assms(2) have d: "drop 20 (batch s) \<noteq> []" by simp
  have scenario: "batch s = handed_off evs" if "sent s = []" "recordChannel s = []"
    using held_run [OF assms(1)] that by (simp add: init_def)
  from ne d assms(2) have general:
    "step s (Tick sr1) = Some (on_tick sr1 s)
         \<and> sent (on_tick sr1 s) = sent s @ [take 20 (batch s)]
         \<and> length (take 20 (batch s)) = 20
         \<and> batch (on_tick sr1 s) = drop 20 (batch s)
         \<and> batch (on_tick sr1 s) \<noteq> []
         \<and> recordChannel (on_tick sr1 s) = recordChannel s"
    by (simp add: on_tick_fields)
  have "run s [Tick sr1, Tick sr2] = Some (on_tick sr2 (on_tick sr1 s))
              \<and> sent (on_tick sr2 (on_tick sr1 s))
                  = [take 20 (handed_off evs), drop 20 (handed_off evs)]
              \<and> length (take 20 (handed_off evs)) = 20
              \<and> length (drop 20 (handed_off evs)) = 5
              \<and> batch (on_tick sr2 (on_tick sr1 s)) = []"
    if "sent s = []" "recordChannel s = []" "length (handed_off evs) = 25"
    using scenario [OF that(1,2)] that ne by (simp add: on_tick_fields)
  with general show ?thesis by blast
qed

theorem burst_sent_in_cycles_witness:
  "run init (submit_all demo_ids) =
     Some (init\<lparr>batch := map enriched demo_ids, answered := replicate 25 ok_response\<rparr>)
   \<and> length (handed_off (submit_all demo_ids)) = 25
   \<and> sent (on_tick sink_ok (on_tick sink_down
        (init\<lparr>batch := map enriched demo_ids, answered := replicate 25 ok_response\<rparr>)))
       = [map enriched (take 20 demo_ids), map enriched (drop 20 demo_ids)]
   \<and> drop 20 demo_ids = [''r21'', ''r22'', ''r23'', ''r24'', ''r25'']"
proof -
  let ?s = "init\<lparr>batch := map enriched demo_ids, answered := replicate 25 ok_response\<rparr>"
  have l: "length demo_ids = 25" by (simp add: demo_ids_def)
  have r: "run init (submit_all demo_ids) = Some ?s"
    using run_submit_all [of init demo_ids] l by (simp add: init_def)
  from held_run [OF r] have h: "handed_off (submit_all demo_ids) = map enriched demo_ids"
    by (simp add: init_def)
  have e: "sent ?s = []" "recordChannel ?s = []" by (simp_all add: init_def)
  have b: "20 < length (batch ?s)" using l by simp
  from h l have g2: "length (handed_off (submit_all demo_ids)) = 25" by simp
  from burst_sent_in_cycles [OF r b, of sink_down sink_ok] e g2 h
  have g3: "sent (on_tick sink_ok (on_tick sink_down ?s))
              = [map enriched (take 20 demo_ids), map enriched (drop 20 demo_ids)]"
    by (simp add: take_map drop_map)
  have g4: "drop 20 demo_ids = [''r21'', ''r22'', ''r23'', ''r24'', ''r25'']"
    by (simp add: demo_ids_def)
  show ?thesis by (rule conjI [OF r conjI [OF g2 conjI [OF g3 g4]]])
qed

text \<open>
  Claim C9. When \<open>sendToAnalytics\<close> returns an error for a batch, the tick logs the
  failure and ends like any other: \<open>sendToAnalytics\<close> was called once, the records of
  the batch are gone from the dispatcher's batch and are not put back on the channel,
  and the loop goes on. The next tick sends the next records of the batch, if any, and
  none of the failed ones.
\<close>

theorem failed_dispatch_is_dropped:
  assumes "batch s \<noteq> []"
    and "sendToAnalytics (take 20 (batch s)) sr = Some e"
  shows "step s (Tick sr) =
           Some (s\<lparr>batch := drop 20 (batch s), sent := sent s @ [take 20 (batch s)],
                   logged := logged s @ [''Failed to send batch to Analytics Service: '' @ e]\<rparr>)
         \<and> recordChannel (on_tick sr s) = recordChannel s
         \<and> sent (on_tick sr' (on_tick sr s)) =
             sent s @ [take 20 (batch s)]
               @ (if drop 20 (batch s) = [] then [] else [take 20 (drop 20 (batch s))])"
  using assms by (simp add: on_tick_failed on_tick_fields)

theorem failed_dispatch_is_dropped_witness:
  "sendToAnalytics (take 20 (map enriched demo_ids)) sink_down = Some ''connection refused''
   \<and> step (init\<lparr>batch := map enriched demo_ids\<rparr>) (Tick sink_down) =
       Some (init\<lparr>batch := map enriched (drop 20 demo_ids),
                  sent := [map enriched (take 20 demo_ids)],
                  logged := [''Failed to send batch to Analytics Service: connection refused'']\<rparr>)
   \<and> sent (on_tick sink_ok (on_tick sink_down (init\<lparr>batch := map enriched demo_ids\<rparr>)))
       = [map enriched (take 20 demo_ids), map enriched (drop 20 demo_ids)]"
proof -
  let ?s = "init\<lparr>batch := map enriched demo_ids\<rparr>"
  have l: "length demo_ids = 25" by (simp add: demo_ids_def)
  have n: "batch ?s \<noteq> []" using l by auto
  have f: "sendToAnalytics (take 20 (batch ?s)) sink_down = Some ''connection refused''"
    by (simp add: sink_down_def)
  then have g1: "sendToAnalytics (take 20 (map enriched demo_ids)) sink_down
                   = Some ''connection refused''"
    by simp
  note t = failed_dispatch_is_dropped [OF n f, of sink_ok]
  from t [THEN conjunct1]
  have g2: "step ?s (Tick sink_down) =
       Some (init\<lparr>batch := map enriched (drop 20 demo_ids),
                  sent := [map enriched (take 20 demo_ids)],
                  logged := [''Failed to send batch to Analytics Service: connection refused'']\<rparr>)"
    by (simp add: take_map drop_map init_def)
  from t [THEN conjunct2, THEN conjunct2] l
  have g3: "sent (on_tick sink_ok (on_tick sink_down ?s))
              = [map enriched (take 20 demo_ids), map enriched (drop 20 demo_ids)]"
    by (simp add: take_map drop_map init_def)
  show ?thesis by (rule conjI [OF g1 conjI [OF g2 g3]])
qed

section \<open>Category normalisation: properties\<close>

text \<open>
  Claim C10. \<open>sanitizeCategory\<close> is idempotent: applied to its own result it returns
  that result. A canonical token of \<open>categoryMap\<close> is mapped to itself, and an input
  that is not a key after lower-casing and trimming comes back lower-cased and trimmed,
  which is a fixed point. The case table of the Go library enters by the one property
  that a lower-cased code point is lower-cased to itself.
\<close>

theorem sanitizeCategory_idempotent:
  assumes "\<forall>r. 127 < r \<longrightarrow> unicode_ToLower tbl (tbl r) = tbl r"
  shows "sanitizeCategory tbl ws (sanitizeCategory tbl ws s) = sanitizeCategory tbl ws s"
proof (cases "map_of categoryMap (TrimSpace ws (ToLower tbl s))")
  case None
  let ?n = "TrimSpace ws (ToLower tbl s)"
  from None have r: "sanitizeCategory tbl ws s = ?n" by (simp add: sanitizeCategory_def)
  have "TrimSpace ws (ToLower tbl ?n) = ?n"
    by (simp add: ToLower_fixed [OF assms] TrimSpace_idem)
  with None have "sanitizeCategory tbl ws ?n = ?n" by (simp add: sanitizeCategory_def)
  with r show ?thesis by simp
next
  case (Some c)
  then have r: "sanitizeCategory tbl ws s = c" by (simp add: sanitizeCategory_def)
  from Some have "(TrimSpace ws (ToLower tbl s), c) \<in> set categoryMap" by (rule map_of_SomeD)
  then have "sanitizeCategory tbl ws c = c" by (rule canonical_fixed)
  with r show ?thesis by simp
qed

theorem sanitizeCategory_idempotent_witness:
  "unicode_ToLower demo_tbl (demo_tbl 304) = demo_tbl 304
   \<and> sanitizeCategory demo_tbl demo_ws (runes ''  Content Injection '') = runes ''contentinjection''
   \<and> sanitizeCategory demo_tbl demo_ws
        (sanitizeCategory demo_tbl demo_ws (runes ''  Content Injection ''))
       = sanitizeCategory demo_tbl demo_ws (runes ''  Content Injection '')
   \<and> sanitizeCategory demo_tbl demo_ws [80, 72, 304, 83, 72, 73, 78, 71] = runes ''phishing''
   \<and> sanitizeCategory demo_tbl demo_ws [32, 201, 116, 233, 160] = [233, 116, 233]"
proof -
  have "sanitizeCategory demo_tbl demo_ws (runes ''  Content Injection '') = runes ''contentinjection''"
    by (simp add: sanitizeCategory_def TrimSpace_def ToLower_def unicode_ToLower_def
        unicode_IsSpace_def categoryMap_def runes_def)
  moreover have "sanitizeCategory demo_tbl demo_ws [80, 72, 304, 83, 72, 73, 78, 71] = runes ''phishing''"
    by (simp add: sanitizeCategory_def TrimSpace_def ToLower_def unicode_ToLower_def
        unicode_IsSpace_def categoryMap_def runes_def demo_tbl_def)
  moreover have "sanitizeCategory demo_tbl demo_ws [32, 201, 116, 233, 160] = [233, 116, 233]"
    by (simp add: sanitizeCategory_def TrimSpace_def ToLower_def unicode_ToLower_def
        unicode_IsSpace_def categoryMap_def runes_def demo_tbl_def)
  moreover have "unicode_ToLower demo_tbl (demo_tbl 304) = demo_tbl 304"
    by (simp add: unicode_ToLower_def demo_tbl_def)
  ultimately show ?thesis
    using sanitizeCategory_idempotent [OF demo_tbl_ok, of demo_ws "runes ''  Content Injection ''"]
    by simp
qed

end
